theory Spec2Isabelle
  imports Complex_Main "HOL-Library.AList"
begin

section \<open>Text\<close>

text \<open>
  A Python \<open>str\<close> is a sequence of Unicode code points. The model works on the
  Latin-1 part of Unicode: a \<^typ>\<open>char\<close> is the code point \<open>of_char c < 256\<close>, and a
  \<^typ>\<open>string\<close> is a text all of whose code points are below 256. Every keyword, cue
  phrase and column value written in \<open>inventory_manager.py\<close> lies in that range
  (a, e, i and o with an acute accent are \<open>0xE1\<close>, \<open>0xE9\<close>, \<open>0xED\<close> and \<open>0xF3\<close>), the
  range is closed under \<open>str.lower\<close>, and its only decimal digits (the characters the
  regular expression \<open>\d\<close> accepts) are \<open>0\<close> to \<open>9\<close>.
\<close>

definition is_digit :: "char \<Rightarrow> bool" where
  "is_digit c = (48 \<le> (of_char c :: nat) \<and> (of_char c :: nat) \<le> 57)"

definition is_space :: "char \<Rightarrow> bool" where
  "is_space c =
     (let n = (of_char c :: nat)
      in (9 \<le> n \<and> n \<le> 13) \<or> (28 \<le> n \<and> n \<le> 32) \<or> n = 133 \<or> n = 160)"

text \<open>\<open>str.lower\<close>: \<open>A\<close>..\<open>Z\<close> and the accented capitals \<open>0xC0\<close>..\<open>0xDE\<close> (without the
  multiplication sign \<open>0xD7\<close>) move up by 32; nothing else changes.\<close>

definition lower_char :: "char \<Rightarrow> char" where
  "lower_char c =
     (let n = (of_char c :: nat)
      in if (65 \<le> n \<and> n \<le> 90) \<or> (192 \<le> n \<and> n \<le> 222 \<and> n \<noteq> 215)
         then char_of (n + 32) else c)"

definition lower :: "string \<Rightarrow> string" where
  "lower s = map lower_char s"

text \<open>\<open>str.upper\<close> leaves Latin-1: the sharp s (\<open>0xDF\<close>) becomes the two letters \<open>SS\<close>,
  the micro sign (\<open>0xB5\<close>) becomes the Greek capital \<open>U+039C\<close> and y with diaeresis
  (\<open>0xFF\<close>) becomes \<open>U+0178\<close>. Its result is therefore a
  list of code points.\<close>

definition upper_char :: "char \<Rightarrow> nat list" where
  "upper_char c =
     (let n = (of_char c :: nat)
      in if (97 \<le> n \<and> n \<le> 122) \<or> (224 \<le> n \<and> n \<le> 254 \<and> n \<noteq> 247) then [n - 32]
         else if n = 223 then [83, 83]
         else if n = 181 then [924]
         else if n = 255 then [376]
         else [n])"

definition upper :: "string \<Rightarrow> nat list" where
  "upper s = concat (map upper_char s)"

definition codepoints :: "string \<Rightarrow> nat list" where
  "codepoints s = map of_char s"

text \<open>\<open>str.title\<close> is applied by the source to the six colour names only, each one
  lower-case ASCII word: the first letter is capitalised.\<close>

definition title :: "string \<Rightarrow> string" where
  "title s = (case s of [] \<Rightarrow> [] | c # cs \<Rightarrow>
     (if 97 \<le> (of_char c :: nat) \<and> (of_char c :: nat) \<le> 122
      then char_of ((of_char c :: nat) - 32) else c) # lower cs)"

definition strip :: "string \<Rightarrow> string" where
  "strip s = rev (dropWhile is_space (rev (dropWhile is_space s)))"

text \<open>\<open>match_literal p s\<close>: the text \<open>s\<close> starts with \<open>p\<close>; the rest of \<open>s\<close> is returned.\<close>

fun match_literal :: "string \<Rightarrow> string \<Rightarrow> string option" where
  "match_literal [] s = Some s"
| "match_literal (p # ps) [] = None"
| "match_literal (p # ps) (c # cs) = (if p = c then match_literal ps cs else None)"

text \<open>Python's \<open>kw in s\<close> on strings.\<close>

fun str_contains :: "string \<Rightarrow> string \<Rightarrow> bool" where
  "str_contains kw [] = (kw = [])"
| "str_contains kw (c # cs) = (match_literal kw (c # cs) \<noteq> None \<or> str_contains kw cs)"

text \<open>
  \<open>re.search(cue + '(\d+)', s)\<close> for a literal cue: the leftmost position at which the
  cue is followed by a digit; the group is the longest run of digits there (\<open>\d+\<close> is
  greedy and nothing follows it in the pattern). The result is \<open>match.group(1)\<close>.
\<close>

definition match_here :: "string \<Rightarrow> string \<Rightarrow> string option" where
  "match_here cue s =
     (case match_literal cue s of
        None \<Rightarrow> None
      | Some rest \<Rightarrow> (let ds = takeWhile is_digit rest in if ds = [] then None else Some ds))"

fun re_search :: "string \<Rightarrow> string \<Rightarrow> string option" where
  "re_search cue [] = match_here cue []"
| "re_search cue (c # cs) =
     (case match_here cue (c # cs) of Some ds \<Rightarrow> Some ds | None \<Rightarrow> re_search cue cs)"

text \<open>\<open>int(ds)\<close> on a run of decimal digits; Python integers are unbounded.\<close>

definition py_int :: "string \<Rightarrow> int" where
  "py_int ds = foldl (\<lambda>n d. 10 * n + (int (of_char d) - 48)) 0 ds"

section \<open>Search criteria\<close>

text \<open>
  The criteria dictionary of \<open>_parse_search_query\<close>. A key that may be absent is an
  option. The three flags are only ever stored as \<open>True\<close> and read with
  \<open>criteria.get(flag, False)\<close>, so a flag is \<open>True\<close> when its key is present and
  \<open>False\<close> when it is absent.
\<close>

record criteria =
  budget_max :: "int option"
  body_style :: "nat list option"
  color :: "string option"
  family_friendly :: bool
  economical :: bool
  luxury :: bool

definition empty_criteria :: criteria where
  "empty_criteria = \<lparr>budget_max = None, body_style = None, color = None,
     family_friendly = False, economical = False, luxury = False\<rparr>"

definition budget_patterns :: "string list" where
  "budget_patterns =
     [''bajo '', ''menos de '', ''hasta '', ''m'' @ [CHR 0xE1] @ ''ximo '', ''presupuesto '']"

definition vehicle_types :: "(string \<times> string list) list" where
  "vehicle_types =
     [(''suv'', [''suv'', ''camioneta'', ''todoterreno'']),
      (''sedan'', [''sedan'', ''sed'' @ [CHR 0xE1] @ ''n'']),
      (''hatchback'', [''hatchback'', ''compacto'']),
      (''truck'', [''truck'', ''pickup'', ''cami'' @ [CHR 0xF3] @ ''n'']),
      (''convertible'', [''convertible'', ''descapotable'']),
      (''coupe'', [''coupe'', ''coup'' @ [CHR 0xE9], ''deportivo''])]"

definition colors :: "(string \<times> string list) list" where
  "colors =
     [(''rojo'', [''rojo'', ''red'']),
      (''azul'', [''azul'', ''blue'']),
      (''negro'', [''negro'', ''black'']),
      (''blanco'', [''blanco'', ''white'']),
      (''gris'', [''gris'', ''gray'', ''grey'']),
      (''plata'', [''plata'', ''silver''])]"

text \<open>The loop over \<open>budget_patterns\<close>: the first pattern that matches decides, then
  \<open>break\<close>.\<close>

fun first_budget :: "string list \<Rightarrow> string \<Rightarrow> int option" where
  "first_budget [] q = None"
| "first_budget (p # ps) q =
     (case re_search p q of Some ds \<Rightarrow> Some (py_int ds) | None \<Rightarrow> first_budget ps q)"

text \<open>\<open>any(keyword in query_lower for keyword in keywords)\<close>.\<close>

definition any_keyword :: "string list \<Rightarrow> string \<Rightarrow> bool" where
  "any_keyword kws q = list_ex (\<lambda>kw. str_contains kw q) kws"

text \<open>The loops over \<open>vehicle_types.items()\<close> and \<open>colors.items()\<close>, in the order the
  dictionary literal is written: the first entry with a keyword in the text, then
  \<open>break\<close>.\<close>

fun first_keyword_entry :: "(string \<times> string list) list \<Rightarrow> string \<Rightarrow> string option" where
  "first_keyword_entry [] q = None"
| "first_keyword_entry ((name, kws) # rest) q =
     (if any_keyword kws q then Some name else first_keyword_entry rest q)"

definition parse_search_query :: "string \<Rightarrow> criteria" where
  "parse_search_query query =
     (let query_lower = lower query
      in \<lparr>budget_max = first_budget budget_patterns query_lower,
          body_style = map_option upper (first_keyword_entry vehicle_types query_lower),
          color = map_option title (first_keyword_entry colors query_lower),
          family_friendly = any_keyword [''familia'', ''familiar'', ''seguro''] query_lower,
          economical =
            any_keyword [''econ'' @ [CHR 0xF3] @ ''mico'', ''barato'',
                         ''h'' @ [CHR 0xED] @ ''brido''] query_lower,
          luxury = any_keyword [''lujo'', ''premium'', ''luxury''] query_lower\<rparr>)"

section \<open>The catalog\<close>

text \<open>
  One row of \<open>inventory_df\<close>, with the columns the source reads (\<open>v_make\<close> and
  \<open>v_color\<close> are the columns \<open>make\<close> and \<open>color\<close>); the \<open>Vehicle\<close>
  object that \<open>intelligent_search\<close> builds from a row copies the thirteen values field
  by field (\<open>body_styles\<close> into \<open>body_style\<close>), so one record stands for both. The
  columns are typed as the \<open>Vehicle\<close> dataclass declares them; an empty cell of the
  two optional columns is \<open>None\<close>. Prices, scores and clock readings are Python floats
  and are modelled as reals: the score constants are small integers, whose float sums
  are exact.
\<close>

record Vehicle =
  vin :: string
  v_make :: string
  model :: string
  year :: int
  price :: real
  mileage :: int
  v_color :: string
  body_styles :: string
  fuel_type :: string
  transmission :: string
  status :: string
  safety_rating :: "string option"
  features :: "string option"

text \<open>\<open>str(row.get(col, ''))\<close> on an optional cell: an empty cell is the float NaN, which
  prints as \<open>nan\<close>.\<close>

definition str_cell :: "string option \<Rightarrow> string" where
  "str_cell x = (case x of None \<Rightarrow> ''nan'' | Some s \<Rightarrow> s)"

text \<open>
  \<open>_apply_filters\<close>. The colour test is \<open>Series.str.contains\<close> with the lower-cased
  criterion as pattern; the six colours the parser produces contain no regular
  expression operator, so the pattern search is the substring test.
\<close>

definition apply_filters :: "Vehicle list \<Rightarrow> criteria \<Rightarrow> Vehicle list" where
  "apply_filters df c =
     (let df1 = (case budget_max c of
                   None \<Rightarrow> df
                 | Some b \<Rightarrow> filter (\<lambda>r. price r \<le> of_int b) df);
          df2 = (case body_style c of
                   None \<Rightarrow> df1
                 | Some bs \<Rightarrow> filter (\<lambda>r. upper (body_styles r) = bs) df1);
          df3 = (case color c of
                   None \<Rightarrow> df2
                 | Some col \<Rightarrow> filter (\<lambda>r. str_contains (lower col) (lower (v_color r))) df2)
      in filter (\<lambda>r. status r = ''Available'') df3)"

text \<open>\<open>_calculate_relevance\<close>; \<open>current_year\<close> is what \<open>datetime.now().year\<close> reads.\<close>

definition calculate_relevance :: "int \<Rightarrow> Vehicle \<Rightarrow> criteria \<Rightarrow> real" where
  "calculate_relevance current_year row c =
     (let score = 0;
          score = (if status row = ''Available'' then score + 10 else score);
          score = (if family_friendly c
                   then (let score = (if upper (body_styles row) \<in> set [codepoints ''SUV'', codepoints ''SEDAN'']
                                      then score + 5 else score)
                         in if str_contains ''safety'' (lower (str_cell (features row)))
                            then score + 3 else score)
                   else score);
          score = (if economical c
                   then (let score = (if price row < 30000 then score + 3 else score)
                         in if str_contains ''hybrid'' (lower (fuel_type row))
                            then score + 4 else score)
                   else score);
          score = (if mileage row > 100000 then score - 2 else score)
      in if year row \<ge> current_year - 2 then score + 2 else score)"

text \<open>
  \<open>DataFrame.nlargest(n, 'relevance_score')\<close> with the default \<open>keep='first'\<close>: the
  \<open>n\<close> rows of largest score in descending order, earlier rows first among equal
  scores; no row for \<open>n \<le> 0\<close>.
\<close>

definition nlargest :: "int \<Rightarrow> (Vehicle \<Rightarrow> real) \<Rightarrow> Vehicle list \<Rightarrow> Vehicle list" where
  "nlargest n score df = take (nat n) (sort_key (\<lambda>r. - score r) df)"

section \<open>The search cache\<close>

text \<open>
  \<open>_search_cache\<close> is a Python dictionary; it is modelled as the list of its items in
  insertion order, since \<open>min\<close> over the dictionary depends on that order. Assigning to a
  key that is present keeps its place, a new key goes to the end (\<open>AList.update\<close>);
  \<open>del\<close> and \<open>pop\<close> remove the key (\<open>AList.delete\<close>). The keys of a dictionary are
  distinct.

  The cache key is the MD5 digest of \<open>"{query.lower().strip()}:{max_results}:{len(df)}"\<close>.
  The model keeps the three components, from which that text can be read back, and
  so treats the digest as free of collisions.
\<close>

type_synonym cache_key = "string \<times> int \<times> nat"

record cache_item =
  result :: "Vehicle list"
  timestamp :: real

type_synonym search_cache = "(cache_key \<times> cache_item) list"

definition cache_ttl :: real where
  "cache_ttl = 300"

definition generate_cache_key :: "string \<Rightarrow> int \<Rightarrow> Vehicle list \<Rightarrow> cache_key" where
  "generate_cache_key query max_results df = (strip (lower query), max_results, length df)"

text \<open>\<open>_get_cached_result\<close>; \<open>now\<close> is what \<open>time.time()\<close> reads. A stored item is a
  non-empty dictionary, hence true in the condition.\<close>

definition get_cached_result ::
  "real \<Rightarrow> cache_key \<Rightarrow> search_cache \<Rightarrow> Vehicle list option \<times> search_cache" where
  "get_cached_result now cache_key cache =
     (case map_of cache cache_key of
        Some item \<Rightarrow>
          if now - timestamp item \<le> cache_ttl then (Some (result item), cache)
          else (None, AList.delete cache_key cache)
      | None \<Rightarrow> (None, AList.delete cache_key cache))"

text \<open>\<open>min(cache, key=...)\<close>: the first key, in dictionary order, among those of least
  timestamp.\<close>

fun min_timestamp :: "cache_key \<times> cache_item \<Rightarrow> search_cache \<Rightarrow> cache_key \<times> cache_item" where
  "min_timestamp m [] = m"
| "min_timestamp m (e # es) =
     min_timestamp (if timestamp (snd e) < timestamp (snd m) then e else m) es"

definition oldest_key :: "search_cache \<Rightarrow> cache_key option" where
  "oldest_key cache = (case cache of [] \<Rightarrow> None | e # es \<Rightarrow> Some (fst (min_timestamp e es)))"

text \<open>\<open>_cache_result\<close>. \<open>min\<close> of an empty dictionary would raise, but the guard
  \<open>len(cache) >= 50\<close> excludes the empty dictionary.\<close>

definition cache_result ::
  "real \<Rightarrow> cache_key \<Rightarrow> Vehicle list \<Rightarrow> search_cache \<Rightarrow> search_cache" where
  "cache_result now cache_key res cache =
     (let cache1 = (if length cache \<ge> 50
                    then (case oldest_key cache of
                            Some k \<Rightarrow> AList.delete k cache
                          | None \<Rightarrow> cache)
                    else cache)
      in AList.update cache_key \<lparr>result = res, timestamp = now\<rparr> cache1)"

section \<open>The inventory manager\<close>

record InventoryManager =
  inventory_df :: "Vehicle list"
  search_cache :: search_cache
  hits :: nat
  misses :: nat

text \<open>
  What \<open>pd.read_csv(csv_path)\<close> finds: no file (\<open>os.path.exists\<close> is false), a file
  that makes the reader raise, or a table. \<open>Table has_status rows\<close> is a table whose
  header has the column \<open>status\<close> or not.
\<close>

datatype csv_file = Missing | Unparsable | Table bool "Vehicle list"

text \<open>The state \<open>__init__\<close> sets up before it calls \<open>load_inventory\<close>.\<close>

definition new_manager :: InventoryManager where
  "new_manager = \<lparr>inventory_df = [], search_cache = [], hits = 0, misses = 0\<rparr>"

definition load_inventory :: "csv_file \<Rightarrow> InventoryManager \<Rightarrow> bool \<times> InventoryManager" where
  "load_inventory file m =
     (case file of
        Missing \<Rightarrow> (False, m)
      | Unparsable \<Rightarrow> (False, m)
      | Table has_status rows \<Rightarrow>
          (True, m\<lparr>inventory_df :=
                     (if has_status then rows
                      else map (\<lambda>r. r\<lparr>status := ''Available''\<rparr>) rows)\<rparr>))"

definition init_manager :: "csv_file \<Rightarrow> InventoryManager" where
  "init_manager file = snd (load_inventory file new_manager)"

text \<open>
  The three clock readings of one call of \<open>intelligent_search\<close>: \<open>time.time()\<close> in
  \<open>_get_cached_result\<close>, \<open>time.time()\<close> in \<open>_cache_result\<close>, and
  \<open>datetime.now().year\<close> in \<open>_calculate_relevance\<close>.
\<close>

record clock =
  time_get :: real
  time_put :: real
  current_year :: int

definition intelligent_search ::
  "clock \<Rightarrow> string \<Rightarrow> int \<Rightarrow> InventoryManager \<Rightarrow> Vehicle list \<times> InventoryManager" where
  "intelligent_search clk query max_results m =
     (if inventory_df m = [] then ([], m)
      else
        let cache_key = generate_cache_key query max_results (inventory_df m);
            (cached_result, cache1) = get_cached_result (time_get clk) cache_key (search_cache m)
        in case cached_result of
             Some res \<Rightarrow> (res, m\<lparr>search_cache := cache1, hits := hits m + 1\<rparr>)
           | None \<Rightarrow>
               let m1 = m\<lparr>search_cache := cache1, misses := misses m + 1\<rparr>;
                   c = parse_search_query query;
                   filtered_df = apply_filters (inventory_df m1) c
               in if filtered_df = []
                  then ([], m1\<lparr>search_cache := cache_result (time_put clk) cache_key [] (search_cache m1)\<rparr>)
                  else
                    let vehicles = nlargest max_results
                                     (\<lambda>row. calculate_relevance (current_year clk) row c)
                                     filtered_df
                    in (vehicles,
                        m1\<lparr>search_cache := cache_result (time_put clk) cache_key vehicles (search_cache m1)\<rparr>))"

definition clear_cache :: "InventoryManager \<Rightarrow> InventoryManager" where
  "clear_cache m = m\<lparr>search_cache := [], hits := 0, misses := 0\<rparr>"

text \<open>
  \<open>reserve_vehicle\<close>. \<open>to_csv\<close> either writes the whole table, or raises and leaves
  some file behind; which of the two happens is decided outside the program.
\<close>

datatype write_outcome = Written | WriteError csv_file

text \<open>\<open>df.loc[idx, 'status'] = 'Reserved'\<close> for the first row whose \<open>vin\<close> matches.\<close>

fun set_reserved :: "string \<Rightarrow> Vehicle list \<Rightarrow> Vehicle list" where
  "set_reserved v [] = []"
| "set_reserved v (r # rs) =
     (if vin r = v then r\<lparr>status := ''Reserved''\<rparr> # rs else r # set_reserved v rs)"

definition reserve_vehicle ::
  "write_outcome \<Rightarrow> string \<Rightarrow> InventoryManager \<times> csv_file \<Rightarrow> bool \<times> InventoryManager \<times> csv_file" where
  "reserve_vehicle w v mf =
     (let m = fst mf; file = snd mf
      in case find (\<lambda>r. vin r = v) (inventory_df m) of
           None \<Rightarrow> (False, m, file)
         | Some r \<Rightarrow>
             if status r \<noteq> ''Available'' then (False, m, file)
             else
               let m1 = m\<lparr>inventory_df := set_reserved v (inventory_df m)\<rparr>
               in (case w of
                     Written \<Rightarrow> (True, m1, Table True (inventory_df m1))
                   | WriteError file1 \<Rightarrow> (False, m1, file1)))"

section \<open>Runs of the program\<close>

text \<open>
  The calls a client can make on the manager, and, as \<open>Replace_file\<close>, a change of the
  backing file from outside. The world is the manager together with the backing file.
  \<open>start file\<close> is the world after \<open>InventoryManager(csv_path)\<close>, which ends with a call
  of \<open>load_inventory\<close>.
\<close>

datatype call =
  Load
| Search clock string int
| Reserve write_outcome string
| Clear_cache
| Replace_file csv_file

fun do_call :: "call \<Rightarrow> InventoryManager \<times> csv_file \<Rightarrow> InventoryManager \<times> csv_file" where
  "do_call Load (m, file) = (snd (load_inventory file m), file)"
| "do_call (Search clk query max_results) (m, file) =
     (snd (intelligent_search clk query max_results m), file)"
| "do_call (Reserve w v) (m, file) = snd (reserve_vehicle w v (m, file))"
| "do_call Clear_cache (m, file) = (clear_cache m, file)"
| "do_call (Replace_file file') (m, file) = (m, file')"

definition start :: "csv_file \<Rightarrow> InventoryManager \<times> csv_file" where
  "start file = (init_manager file, file)"

definition run :: "call list \<Rightarrow> InventoryManager \<times> csv_file \<Rightarrow> InventoryManager \<times> csv_file" where
  "run calls w = foldl (\<lambda>w c. do_call c w) w calls"

text \<open>Every vehicle of every cached result list has the status \<open>Available\<close>.\<close>

definition cache_available :: "search_cache \<Rightarrow> bool" where
  "cache_available c =
     list_all (\<lambda>e. list_all (\<lambda>r. status r = ''Available'') (result (snd e))) c"

section \<open>Example data\<close>

text \<open>A small catalog, a clock and a full cache, on which the theorems below are
  evaluated.\<close>

definition example_suv :: Vehicle where
  "example_suv =
     \<lparr>vin = ''VIN001'', v_make = ''Toyota'', model = ''RAV4'', year = 2026, price = 28000,
      mileage = 12000, v_color = ''Blanco'', body_styles = ''SUV'', fuel_type = ''Gasoline'',
      transmission = ''Automatic'', status = ''Available'', safety_rating = None,
      features = None\<rparr>"

definition example_sedan :: Vehicle where
  "example_sedan =
     \<lparr>vin = ''VIN002'', v_make = ''Honda'', model = ''Accord'', year = 2019, price = 21000,
      mileage = 130000, v_color = ''Rojo'', body_styles = ''Sedan'', fuel_type = ''Hybrid'',
      transmission = ''Automatic'', status = ''Reserved'', safety_rating = Some ''5'',
      features = Some ''Safety Sense''\<rparr>"

definition example_clock :: clock where
  "example_clock = \<lparr>time_get = 1000, time_put = 1001, current_year = 2026\<rparr>"

definition example_manager :: InventoryManager where
  "example_manager = init_manager (Table True [example_suv, example_sedan])"

definition all_flags :: criteria where
  "all_flags = \<lparr>budget_max = None, body_style = None, color = None,
     family_friendly = True, economical = True, luxury = True\<rparr>"

definition full_cache :: search_cache where
  "full_cache =
     map (\<lambda>i. ((''suv'', 8, i), \<lparr>result = [], timestamp = 100 + real i\<rparr>)) [0..<50]"

section \<open>The text matchers meet their description\<close>

lemma match_literal_iff: "match_literal p s = Some r \<longleftrightarrow> s = p @ r"
  by (induction p s rule: match_literal.induct) auto

lemma str_contains_iff: "str_contains kw s \<longleftrightarrow> (\<exists>pre post. s = pre @ kw @ post)"
proof (induction s)
  case Nil
  then show ?case by auto
next
  case (Cons c cs)
  have "(\<exists>pre post. c # cs = pre @ kw @ post) \<longleftrightarrow>
        (\<exists>post. c # cs = kw @ post) \<or> (\<exists>pre post. cs = pre @ kw @ post)"
  proof
    assume "\<exists>pre post. c # cs = pre @ kw @ post"
    then obtain pre post where e: "c # cs = pre @ kw @ post" by blast
    show "(\<exists>post. c # cs = kw @ post) \<or> (\<exists>pre post. cs = pre @ kw @ post)"
    proof (cases pre)
      case Nil
      then show ?thesis using e by auto
    next
      case (Cons a pre')
      then have "cs = pre' @ kw @ post" using e by simp
      then show ?thesis by blast
    qed
  next
    assume "(\<exists>post. c # cs = kw @ post) \<or> (\<exists>pre post. cs = pre @ kw @ post)"
    then show "\<exists>pre post. c # cs = pre @ kw @ post"
    proof
      assume "\<exists>post. c # cs = kw @ post"
      then obtain post where "c # cs = [] @ kw @ post" by auto
      then show ?thesis by blast
    next
      assume "\<exists>pre post. cs = pre @ kw @ post"
      then obtain pre post where "c # cs = (c # pre) @ kw @ post" by auto
      then show ?thesis by blast
    qed
  qed
  moreover have "match_literal kw (c # cs) \<noteq> None \<longleftrightarrow> (\<exists>post. c # cs = kw @ post)"
    using match_literal_iff[of kw "c # cs"] by auto
  ultimately show ?case using Cons.IH by simp
qed

lemma match_here_iff:
  "match_here cue s = Some ds \<longleftrightarrow>
   (\<exists>rest. s = cue @ rest \<and> ds = takeWhile is_digit rest \<and> ds \<noteq> [])"
proof (cases "match_literal cue s")
  case None
  then have "\<And>rest. s \<noteq> cue @ rest"
    using match_literal_iff[of cue s] by auto
  then show ?thesis using None by (simp add: match_here_def)
next
  case (Some r)
  then have "s = cue @ r" by (simp add: match_literal_iff)
  then show ?thesis using Some by (auto simp: match_here_def Let_def)
qed

text \<open>A match of \<open>re_search\<close> is the cue followed by a run of digits that cannot be
  extended, somewhere in the text.\<close>

lemma re_search_shape:
  "re_search cue s = Some ds \<Longrightarrow>
   \<exists>pre post. s = pre @ cue @ ds @ post \<and> ds \<noteq> [] \<and> list_all is_digit ds \<and>
     takeWhile is_digit post = []"
proof (induction s)
  case Nil
  then obtain rest where r: "[] = cue @ rest" "ds = takeWhile is_digit rest" "ds \<noteq> []"
    using match_here_iff[of cue "[]" ds] by auto
  then show ?case by simp
next
  case (Cons c cs)
  show ?case
  proof (cases "match_here cue (c # cs)")
    case None
    then have "re_search cue cs = Some ds" using Cons.prems by simp
    from Cons.IH[OF this] obtain pre post where
      "cs = pre @ cue @ ds @ post" "ds \<noteq> []" "list_all is_digit ds" "takeWhile is_digit post = []"
      by blast
    then have "c # cs = (c # pre) @ cue @ ds @ post \<and> ds \<noteq> [] \<and> list_all is_digit ds \<and>
        takeWhile is_digit post = []"
      by simp
    then show ?thesis by blast
  next
    case (Some ds')
    then have "ds' = ds" using Cons.prems by simp
    then obtain rest where r: "c # cs = cue @ rest" "ds = takeWhile is_digit rest" "ds \<noteq> []"
      using Some match_here_iff[of cue "c # cs" ds] by auto
    have "c # cs = [] @ cue @ ds @ dropWhile is_digit rest"
      using r by simp
    moreover have "list_all is_digit ds"
      using r(2) by (auto simp: list_all_iff dest: set_takeWhileD)
    moreover have "takeWhile is_digit (dropWhile is_digit rest) = []"
      by (metis hd_dropWhile takeWhile.simps(1) takeWhile_eq_Nil_iff)
    ultimately show ?thesis using r(3) by blast
  qed
qed

text \<open>\<open>re_search\<close> finds nothing exactly when the cue followed by a digit occurs
  nowhere in the text.\<close>

lemma re_search_None_iff:
  "re_search cue s = None \<longleftrightarrow> (\<forall>d. is_digit d \<longrightarrow> \<not> str_contains (cue @ [d]) s)"
proof (induction s)
  case Nil
  show ?case
    by (cases cue) (auto simp: match_here_def)
next
  case (Cons c cs)
  have m: "match_here cue (c # cs) = None \<longleftrightarrow>
           (\<forall>d. is_digit d \<longrightarrow> match_literal (cue @ [d]) (c # cs) = None)"
  proof
    assume n: "match_here cue (c # cs) = None"
    show "\<forall>d. is_digit d \<longrightarrow> match_literal (cue @ [d]) (c # cs) = None"
    proof (intro allI impI)
      fix d assume d: "is_digit d"
      show "match_literal (cue @ [d]) (c # cs) = None"
      proof (rule ccontr)
        assume "match_literal (cue @ [d]) (c # cs) \<noteq> None"
        then obtain r where "c # cs = (cue @ [d]) @ r"
          using match_literal_iff[of "cue @ [d]" "c # cs"] by auto
        then have "c # cs = cue @ (d # r)" by simp
        then have "match_here cue (c # cs) = Some (takeWhile is_digit (d # r))"
          using d match_here_iff[of cue "c # cs" "takeWhile is_digit (d # r)"] by auto
        then show False using n by simp
      qed
    qed
  next
    assume a: "\<forall>d. is_digit d \<longrightarrow> match_literal (cue @ [d]) (c # cs) = None"
    show "match_here cue (c # cs) = None"
    proof (rule ccontr)
      assume "match_here cue (c # cs) \<noteq> None"
      then obtain ds rest where r: "c # cs = cue @ rest" "ds = takeWhile is_digit rest" "ds \<noteq> []"
        using match_here_iff[of cue "c # cs"] by auto
      then obtain d rest' where d: "rest = d # rest'" "is_digit d"
        by (cases rest) (auto split: if_splits)
      then have "c # cs = (cue @ [d]) @ rest'" using r(1) by simp
      then have "match_literal (cue @ [d]) (c # cs) = Some rest'"
        using match_literal_iff[of "cue @ [d]" "c # cs" rest'] by simp
      then show False using a d(2) by simp
    qed
  qed
  show ?case
    using Cons.IH m by (auto split: option.splits)
qed

section \<open>Properties of the relevance score and the filter\<close>

lemma apply_filters_status: "r \<in> set (apply_filters df c) \<Longrightarrow> status r = ''Available''"
  by (simp add: apply_filters_def Let_def)

lemma set_nlargest: "set (nlargest n f df) \<subseteq> set df"
  unfolding nlargest_def using set_take_subset[of "nat n" "sort_key (\<lambda>r. - f r) df"] by simp

lemma nlargest_singleton: "0 < n \<Longrightarrow> nlargest n f [r] = [r]"
  by (cases "nat n") (simp_all add: nlargest_def)

subsection \<open>The cached results hold available vehicles only\<close>

lemma cache_available_delete: "cache_available c \<Longrightarrow> cache_available (AList.delete k c)"
  by (fastforce simp: cache_available_def AList.delete_eq list_all_iff)

lemma cache_available_update:
  "cache_available c \<Longrightarrow> list_all (\<lambda>r. status r = ''Available'') (result v) \<Longrightarrow>
   cache_available (AList.update k v c)"
  by (induction c) (auto simp: cache_available_def)

lemma cache_available_cache_result:
  "cache_available c \<Longrightarrow> list_all (\<lambda>r. status r = ''Available'') res \<Longrightarrow>
   cache_available (cache_result now k res c)"
  by (auto simp: cache_result_def Let_def intro!: cache_available_update cache_available_delete
      split: option.splits)

lemma cache_available_lookup:
  "cache_available c \<Longrightarrow> map_of c k = Some item \<Longrightarrow>
   list_all (\<lambda>r. status r = ''Available'') (result item)"
  by (auto simp: cache_available_def list_all_iff dest!: map_of_SomeD)

lemma get_cached_available:
  "cache_available c \<Longrightarrow> get_cached_result now k c = (x, c') \<Longrightarrow>
   cache_available c' \<and> (\<forall>res. x = Some res \<longrightarrow> list_all (\<lambda>r. status r = ''Available'') res)"
  by (auto simp: get_cached_result_def cache_available_delete cache_available_lookup
      split: option.splits if_splits)

lemma search_available:
  assumes "cache_available (search_cache m)"
  shows "list_all (\<lambda>r. status r = ''Available'') (fst (intelligent_search clk q k m)) \<and>
         cache_available (search_cache (snd (intelligent_search clk q k m)))"
proof (cases "inventory_df m = []")
  case True
  then show ?thesis using assms by (simp add: intelligent_search_def)
next
  case False
  obtain x c' where g: "get_cached_result (time_get clk)
      (generate_cache_key q k (inventory_df m)) (search_cache m) = (x, c')"
    by (cases "get_cached_result (time_get clk) (generate_cache_key q k (inventory_df m)) (search_cache m)")
  from get_cached_available[OF assms g]
  have c': "cache_available c'"
    and x: "\<And>res. x = Some res \<Longrightarrow> list_all (\<lambda>r. status r = ''Available'') res"
    by auto
  have nl: "list_all (\<lambda>r. status r = ''Available'')
     (nlargest k f (apply_filters (inventory_df m) c))" for f c
    using set_nlargest[of k f "apply_filters (inventory_df m) c"] apply_filters_status
    by (auto simp: list_all_iff)
  show ?thesis
  proof (cases x)
    case None
    then show ?thesis using False g c' nl
      by (simp add: intelligent_search_def Let_def cache_available_cache_result)
  next
    case (Some res)
    then show ?thesis using False g c' x
      by (simp add: intelligent_search_def Let_def)
  qed
qed

subsection \<open>Runs\<close>

lemma run_invariant:
  assumes "P w" and "\<And>c w. P w \<Longrightarrow> P (do_call c w)"
  shows "P (run calls w)"
  using assms(1) unfolding run_def
  by (induction calls arbitrary: w) (simp_all add: assms(2))

lemma cache_load_inventory: "search_cache (snd (load_inventory file m)) = search_cache m"
  by (simp add: load_inventory_def split: csv_file.splits)

lemma cache_reserve_vehicle: "search_cache (fst (snd (reserve_vehicle w v (m, file)))) = search_cache m"
  by (simp add: reserve_vehicle_def Let_def split: option.splits write_outcome.splits)

lemma cache_start: "search_cache (fst (start file)) = []"
  by (simp add: start_def init_manager_def cache_load_inventory new_manager_def)

lemma cache_do_call:
  "search_cache (fst (do_call c w)) = search_cache (fst w) \<or> search_cache (fst (do_call c w)) = [] \<or>
   (\<exists>clk q k. search_cache (fst (do_call c w)) = search_cache (snd (intelligent_search clk q k (fst w))))"
proof (cases w)
  case (Pair m csv)
  then show ?thesis
    by (cases c) (auto simp: cache_load_inventory cache_reserve_vehicle clear_cache_def)
qed

lemma run_cache_available: "cache_available (search_cache (fst (run calls (start file))))"
proof (rule run_invariant[where P = "\<lambda>w. cache_available (search_cache (fst w))"])
  show "cache_available (search_cache (fst (start file)))"
    by (simp add: cache_start cache_available_def)
next
  fix c and w :: "InventoryManager \<times> csv_file"
  assume "cache_available (search_cache (fst w))"
  then show "cache_available (search_cache (fst (do_call c w)))"
    using cache_do_call[of c w] search_available[of "fst w"]
    by (auto simp: cache_available_def)
qed

text \<open>
  Claim C2. Every vehicle that \<open>_apply_filters\<close> returns has the status \<open>Available\<close>,
  for every catalog and every criteria record, the empty one included; and so has
  every vehicle that \<open>intelligent_search\<close> returns, in every state the manager can
  reach from its construction, whether the answer is computed or comes from the cache.
\<close>

theorem only_available_vehicles:
  "(\<forall>r \<in> set (apply_filters df c). status r = ''Available'') \<and>
   (\<forall>r \<in> set (apply_filters df empty_criteria). status r = ''Available'') \<and>
   (\<forall>r \<in> set (fst (intelligent_search clk query max_results (fst (run calls (start file))))).
      status r = ''Available'')"
  using search_available[OF run_cache_available]
  by (auto simp: apply_filters_status list_all_iff)

theorem only_available_vehicles_witness:
  "apply_filters [example_suv, example_sedan] empty_criteria = [example_suv] \<and>
   status example_sedan = ''Reserved'' \<and>
   list_all (\<lambda>r. status r = ''Available'')
     (apply_filters [example_suv, example_sedan] empty_criteria) \<and>
   fst (intelligent_search (example_clock\<lparr>time_get := 1200\<rparr>) ''suv'' 8
         (fst (run [Search example_clock ''suv'' 8, Reserve Written ''VIN001'']
                 (start (Table True [example_suv, example_sedan]))))) = [example_suv] \<and>
   list_all (\<lambda>r. status r = ''Available'')
     (fst (intelligent_search (example_clock\<lparr>time_get := 1200\<rparr>) ''suv'' 8
         (fst (run [Search example_clock ''suv'' 8, Reserve Written ''VIN001'']
                 (start (Table True [example_suv, example_sedan]))))))"
proof -
  have "apply_filters [example_suv, example_sedan] empty_criteria = [example_suv]"
    by code_simp
  moreover have "status example_sedan = ''Reserved''"
    by code_simp
  moreover have "fst (intelligent_search (example_clock\<lparr>time_get := 1200\<rparr>) ''suv'' 8
         (fst (run [Search example_clock ''suv'' 8, Reserve Written ''VIN001'']
                 (start (Table True [example_suv, example_sedan]))))) = [example_suv]"
    by code_simp
  ultimately show ?thesis
    using only_available_vehicles[of "[example_suv, example_sedan]" empty_criteria
        "example_clock\<lparr>time_get := 1200\<rparr>" "''suv''" 8
        "[Search example_clock ''suv'' 8, Reserve Written ''VIN001'']"
        "Table True [example_suv, example_sedan]"]
    by (simp add: list_all_iff)
qed

text \<open>
  Claim C8. With the vehicle, the year and the other criteria fields fixed, setting
  more of the flags \<open>family_friendly\<close>, \<open>economical\<close> and \<open>luxury\<close> never lowers the
  relevance score.
\<close>

theorem relevance_monotone_in_flags:
  assumes "budget_max c' = budget_max c" and "body_style c' = body_style c"
    and "color c' = color c"
    and "family_friendly c \<longrightarrow> family_friendly c'"
    and "economical c \<longrightarrow> economical c'"
    and "luxury c \<longrightarrow> luxury c'"
  shows "calculate_relevance yr row c \<le> calculate_relevance yr row c'"
  using assms(4,5) by (simp add: calculate_relevance_def Let_def)

theorem relevance_monotone_in_flags_witness:
  "calculate_relevance 2026 example_sedan empty_criteria = -2 \<and>
   calculate_relevance 2026 example_sedan all_flags = 13 \<and>
   calculate_relevance 2026 example_sedan empty_criteria
     \<le> calculate_relevance 2026 example_sedan all_flags"
proof -
  have "calculate_relevance 2026 example_sedan empty_criteria = -2"
    by code_simp
  moreover have "calculate_relevance 2026 example_sedan all_flags = 13"
    by code_simp
  moreover have "calculate_relevance 2026 example_sedan empty_criteria
     \<le> calculate_relevance 2026 example_sedan all_flags"
    by (rule relevance_monotone_in_flags) (simp_all add: empty_criteria_def all_flags_def)
  ultimately show ?thesis by simp
qed

text \<open>
  Claim C9. Two criteria records that differ in the \<open>luxury\<close> flag only give the same
  filter output, the same relevance score for every vehicle and hence the same ranked
  result, although \<open>_parse_search_query\<close> sets the flag.
\<close>

theorem luxury_noninterference:
  assumes "budget_max c' = budget_max c" and "body_style c' = body_style c"
    and "color c' = color c"
    and "family_friendly c' = family_friendly c"
    and "economical c' = economical c"
  shows "apply_filters df c' = apply_filters df c \<and>
         calculate_relevance yr row c' = calculate_relevance yr row c \<and>
         nlargest max_results (\<lambda>row. calculate_relevance yr row c') (apply_filters df c') =
         nlargest max_results (\<lambda>row. calculate_relevance yr row c) (apply_filters df c)"
proof -
  have f: "apply_filters df c' = apply_filters df c"
    using assms(1-3) by (simp add: apply_filters_def)
  have s: "calculate_relevance yr row c' = calculate_relevance yr row c" for row
    using assms(4,5) by (simp add: calculate_relevance_def)
  show ?thesis using f s by simp
qed

theorem luxury_noninterference_witness:
  "luxury (parse_search_query ''suv de lujo'') \<and> \<not> luxury (parse_search_query ''suv'') \<and>
   apply_filters [example_suv, example_sedan] (parse_search_query ''suv de lujo'') =
   apply_filters [example_suv, example_sedan] (parse_search_query ''suv'') \<and>
   calculate_relevance 2026 example_suv (parse_search_query ''suv de lujo'') =
   calculate_relevance 2026 example_suv (parse_search_query ''suv'')"
proof -
  have l: "parse_search_query ''suv de lujo'' = (parse_search_query ''suv'')\<lparr>luxury := True\<rparr>"
    by code_simp
  have n: "\<not> luxury (parse_search_query ''suv'')"
    by code_simp
  show ?thesis
    using luxury_noninterference[of "parse_search_query ''suv de lujo''" "parse_search_query ''suv''"
        "[example_suv, example_sedan]" 2026 example_suv 8] n
    by (simp add: l)
qed

section \<open>Loading and reserving\<close>

text \<open>
  Claim C7. When the backing file is missing or cannot be parsed, \<open>load_inventory\<close>
  returns \<open>False\<close> and the manager, its catalog included, is exactly what it was; and a
  search on an empty catalog returns the empty list and changes nothing. The model of
  \<open>intelligent_search\<close> is a total function: on the typed catalog no step of the search
  raises, and on the empty catalog the first statement returns.
\<close>

theorem load_failure_keeps_catalog:
  "load_inventory Missing m = (False, m) \<and>
   load_inventory Unparsable m = (False, m) \<and>
   (inventory_df m = [] \<longrightarrow> intelligent_search clk query max_results m = ([], m)) \<and>
   fst (intelligent_search clk query max_results (init_manager Missing)) = [] \<and>
   fst (intelligent_search clk query max_results (init_manager Unparsable)) = []"
  by (simp add: load_inventory_def intelligent_search_def init_manager_def new_manager_def)

theorem load_failure_keeps_catalog_witness:
  "load_inventory Missing example_manager = (False, example_manager) \<and>
   load_inventory Unparsable example_manager = (False, example_manager) \<and>
   inventory_df example_manager = [example_suv, example_sedan] \<and>
   inventory_df new_manager = [] \<and>
   intelligent_search example_clock ''suv'' 8 new_manager = ([], new_manager)"
proof -
  have "inventory_df example_manager = [example_suv, example_sedan]"
    by code_simp
  moreover have "inventory_df new_manager = []"
    by (simp add: new_manager_def)
  ultimately show ?thesis
    using load_failure_keeps_catalog[of example_manager example_clock "''suv''" 8]
      load_failure_keeps_catalog[of new_manager example_clock "''suv''" 8]
    by simp
qed

lemma find_set_reserved:
  "find (\<lambda>r. vin r = v) rows = Some r \<Longrightarrow>
   find (\<lambda>r. vin r = v) (set_reserved v rows) = Some (r\<lparr>status := ''Reserved''\<rparr>)"
  by (induction rows) (auto split: if_splits)

lemma filter_set_reserved:
  "filter (\<lambda>r. vin r \<noteq> v) (set_reserved v rows) = filter (\<lambda>r. vin r \<noteq> v) rows"
  by (induction rows) auto

lemma length_set_reserved: "length (set_reserved v rows) = length rows"
  by (induction rows) auto

lemma reserve_twice: "fst (reserve_vehicle w' v (snd (reserve_vehicle w v mf))) = False"
  by (cases mf) (auto simp: reserve_vehicle_def Let_def find_set_reserved
      split: option.splits write_outcome.splits)

text \<open>
  Claim C5. \<open>reserve_vehicle\<close> returns \<open>False\<close> and leaves the manager and the file as
  they were when no row has the vin, or when the first row that has it is not
  \<open>Available\<close>. When that row is \<open>Available\<close> and the write succeeds, its status becomes
  \<open>Reserved\<close>, the rows of other vins and the number of rows do not change, the file
  holds the whole updated table, and the call returns \<open>True\<close>. A repeated reserve of the
  same vin returns \<open>False\<close>.
\<close>

theorem reserve_vehicle_contract:
  "(find (\<lambda>r. vin r = v) (inventory_df m) = None \<longrightarrow>
      reserve_vehicle w v (m, file) = (False, m, file)) \<and>
   (find (\<lambda>r. vin r = v) (inventory_df m) = Some r \<and> status r \<noteq> ''Available'' \<longrightarrow>
      reserve_vehicle w v (m, file) = (False, m, file)) \<and>
   (find (\<lambda>r. vin r = v) (inventory_df m) = Some r \<and> status r = ''Available'' \<longrightarrow>
      reserve_vehicle Written v (m, file) =
        (True, m\<lparr>inventory_df := set_reserved v (inventory_df m)\<rparr>,
         Table True (set_reserved v (inventory_df m))) \<and>
      find (\<lambda>r. vin r = v) (set_reserved v (inventory_df m)) = Some (r\<lparr>status := ''Reserved''\<rparr>) \<and>
      filter (\<lambda>r. vin r \<noteq> v) (set_reserved v (inventory_df m)) =
        filter (\<lambda>r. vin r \<noteq> v) (inventory_df m) \<and>
      length (set_reserved v (inventory_df m)) = length (inventory_df m)) \<and>
   fst (reserve_vehicle w' v (snd (reserve_vehicle w v (m, file)))) = False"
proof -
  have "fst (reserve_vehicle w' v (snd (reserve_vehicle w v (m, file)))) = False"
    by (rule reserve_twice)
  moreover have "find (\<lambda>r. vin r = v) (inventory_df m) = None \<longrightarrow>
      reserve_vehicle w v (m, file) = (False, m, file)"
    by (simp add: reserve_vehicle_def)
  moreover have "find (\<lambda>r. vin r = v) (inventory_df m) = Some r \<and> status r \<noteq> ''Available'' \<longrightarrow>
      reserve_vehicle w v (m, file) = (False, m, file)"
    by (simp add: reserve_vehicle_def)
  moreover have "find (\<lambda>r. vin r = v) (inventory_df m) = Some r \<and> status r = ''Available'' \<longrightarrow>
      reserve_vehicle Written v (m, file) =
        (True, m\<lparr>inventory_df := set_reserved v (inventory_df m)\<rparr>,
         Table True (set_reserved v (inventory_df m)))"
    by (simp add: reserve_vehicle_def)
  ultimately show ?thesis
    by (simp add: find_set_reserved filter_set_reserved length_set_reserved)
qed

theorem reserve_vehicle_contract_witness:
  "find (\<lambda>r. vin r = ''VIN001'') (inventory_df example_manager) = Some example_suv \<and>
   status example_suv = ''Available'' \<and>
   reserve_vehicle Written ''VIN001'' (example_manager, Missing) =
     (True, example_manager\<lparr>inventory_df := [example_suv\<lparr>status := ''Reserved''\<rparr>, example_sedan]\<rparr>,
      Table True [example_suv\<lparr>status := ''Reserved''\<rparr>, example_sedan]) \<and>
   fst (reserve_vehicle Written ''VIN001''
          (snd (reserve_vehicle Written ''VIN001'' (example_manager, Missing)))) = False \<and>
   find (\<lambda>r. vin r = ''VIN002'') (inventory_df example_manager) = Some example_sedan \<and>
   status example_sedan \<noteq> ''Available'' \<and>
   reserve_vehicle Written ''VIN002'' (example_manager, Missing) = (False, example_manager, Missing) \<and>
   find (\<lambda>r. vin r = ''VIN003'') (inventory_df example_manager) = None \<and>
   reserve_vehicle Written ''VIN003'' (example_manager, Missing) = (False, example_manager, Missing)"
proof -
  have f1: "find (\<lambda>r. vin r = ''VIN001'') (inventory_df example_manager) = Some example_suv"
    by code_simp
  have a1: "status example_suv = ''Available''"
    by code_simp
  have f2: "find (\<lambda>r. vin r = ''VIN002'') (inventory_df example_manager) = Some example_sedan"
    by code_simp
  have a2: "status example_sedan \<noteq> ''Available''"
    by code_simp
  have f3: "find (\<lambda>r. vin r = ''VIN003'') (inventory_df example_manager) = None"
    by code_simp
  have s: "set_reserved ''VIN001'' (inventory_df example_manager) =
      [example_suv\<lparr>status := ''Reserved''\<rparr>, example_sedan]"
    by code_simp
  note c1 = reserve_vehicle_contract[of "''VIN001''" example_manager Written Missing
      example_suv Written]
  note c2 = reserve_vehicle_contract[of "''VIN002''" example_manager Written Missing
      example_sedan Written]
  note c3 = reserve_vehicle_contract[of "''VIN003''" example_manager Written Missing
      example_sedan Written]
  have r1: "reserve_vehicle Written ''VIN001'' (example_manager, Missing) =
     (True, example_manager\<lparr>inventory_df := set_reserved ''VIN001'' (inventory_df example_manager)\<rparr>,
      Table True (set_reserved ''VIN001'' (inventory_df example_manager)))"
    using c1 f1 a1 by blast
  have t1: "fst (reserve_vehicle Written ''VIN001''
          (snd (reserve_vehicle Written ''VIN001'' (example_manager, Missing)))) = False"
    using c1 by blast
  have r2: "reserve_vehicle Written ''VIN002'' (example_manager, Missing) =
      (False, example_manager, Missing)"
    using c2 f2 a2 by blast
  have r3: "reserve_vehicle Written ''VIN003'' (example_manager, Missing) =
      (False, example_manager, Missing)"
    using c3 f3 by blast
  show ?thesis
    using f1 a1 r1[unfolded s] t1 f2 a2 r2 f3 r3 by blast
qed

text \<open>
  Claim C10. When the vehicle is \<open>Available\<close> and the write of the table raises,
  \<open>reserve_vehicle\<close> returns \<open>False\<close>, yet the catalog in memory has changed: the
  vehicle's status is \<open>Reserved\<close>.
\<close>

theorem reserve_write_failure_not_atomic:
  assumes "find (\<lambda>r. vin r = v) (inventory_df m) = Some r" and "status r = ''Available''"
  shows "reserve_vehicle (WriteError file') v (m, file) =
           (False, m\<lparr>inventory_df := set_reserved v (inventory_df m)\<rparr>, file') \<and>
         find (\<lambda>r. vin r = v) (set_reserved v (inventory_df m)) = Some (r\<lparr>status := ''Reserved''\<rparr>) \<and>
         set_reserved v (inventory_df m) \<noteq> inventory_df m"
proof -
  have f: "find (\<lambda>r. vin r = v) (set_reserved v (inventory_df m)) = Some (r\<lparr>status := ''Reserved''\<rparr>)"
    using assms(1) by (rule find_set_reserved)
  have "r\<lparr>status := ''Reserved''\<rparr> \<noteq> r"
  proof
    assume "r\<lparr>status := ''Reserved''\<rparr> = r"
    then have "status (r\<lparr>status := ''Reserved''\<rparr>) = status r" by simp
    then show False using assms(2) by simp
  qed
  then have "set_reserved v (inventory_df m) \<noteq> inventory_df m"
    using f assms(1) by auto
  then show ?thesis using assms f by (simp add: reserve_vehicle_def)
qed

theorem reserve_write_failure_not_atomic_witness:
  "fst (reserve_vehicle (WriteError Unparsable) ''VIN001''
         (example_manager, Table True [example_suv, example_sedan])) = False \<and>
   inventory_df (fst (snd (reserve_vehicle (WriteError Unparsable) ''VIN001''
         (example_manager, Table True [example_suv, example_sedan])))) =
     [example_suv\<lparr>status := ''Reserved''\<rparr>, example_sedan] \<and>
   inventory_df example_manager = [example_suv, example_sedan]"
proof -
  have f1: "find (\<lambda>r. vin r = ''VIN001'') (inventory_df example_manager) = Some example_suv"
    by code_simp
  have a1: "status example_suv = ''Available''"
    by code_simp
  have s: "set_reserved ''VIN001'' (inventory_df example_manager) =
      [example_suv\<lparr>status := ''Reserved''\<rparr>, example_sedan]"
    by code_simp
  have i: "inventory_df example_manager = [example_suv, example_sedan]"
    by code_simp
  have e: "reserve_vehicle (WriteError Unparsable) ''VIN001''
         (example_manager, Table True [example_suv, example_sedan]) =
       (False, example_manager\<lparr>inventory_df := set_reserved ''VIN001'' (inventory_df example_manager)\<rparr>,
        Unparsable)"
    using reserve_write_failure_not_atomic[OF f1 a1, of Unparsable
        "Table True [example_suv, example_sedan]"]
    by blast
  show ?thesis
    unfolding e s using i by simp
qed

section \<open>The search cache: size, eviction and repeated searches\<close>

lemma min_timestamp_mem: "min_timestamp m es \<in> set (m # es)"
  by (induction es arbitrary: m) auto

lemma min_timestamp_le:
  "\<forall>e \<in> set (m # es). timestamp (snd (min_timestamp m es)) \<le> timestamp (snd e)"
proof (induction es arbitrary: m)
  case Nil
  then show ?case by simp
next
  case (Cons a es)
  let ?m' = "if timestamp (snd a) < timestamp (snd m) then a else m"
  have IH: "\<forall>e \<in> set (?m' # es). timestamp (snd (min_timestamp ?m' es)) \<le> timestamp (snd e)"
    by (rule Cons.IH)
  then have le_m': "timestamp (snd (min_timestamp ?m' es)) \<le> timestamp (snd ?m')"
    by simp
  have "timestamp (snd ?m') \<le> timestamp (snd m)" "timestamp (snd ?m') \<le> timestamp (snd a)"
    by auto
  with le_m' have "timestamp (snd (min_timestamp ?m' es)) \<le> timestamp (snd m)"
    "timestamp (snd (min_timestamp ?m' es)) \<le> timestamp (snd a)"
    by linarith+
  moreover have "\<forall>e \<in> set es. timestamp (snd (min_timestamp ?m' es)) \<le> timestamp (snd e)"
    using IH by simp
  ultimately show ?case by simp
qed

lemma oldest_key_spec:
  assumes "c \<noteq> []"
  shows "\<exists>e \<in> set c. oldest_key c = Some (fst e) \<and>
           (\<forall>e' \<in> set c. timestamp (snd e) \<le> timestamp (snd e'))"
proof -
  obtain a es where c: "c = a # es" using assms by (cases c) auto
  have "min_timestamp a es \<in> set c" using min_timestamp_mem[of a es] c by simp
  moreover have "oldest_key c = Some (fst (min_timestamp a es))" by (simp add: oldest_key_def c)
  moreover have "\<forall>e' \<in> set c. timestamp (snd (min_timestamp a es)) \<le> timestamp (snd e')"
    using min_timestamp_le[of a es] c by simp
  ultimately show ?thesis by blast
qed

lemma length_delete_less: "k \<in> fst ` set c \<Longrightarrow> length (AList.delete k c) < length c"
proof -
  assume "k \<in> fst ` set c"
  then obtain v where "(k, v) \<in> set c" by auto
  then show ?thesis
    unfolding AList.delete_eq by (intro length_filter_less[of "(k, v)"]) auto
qed

lemma length_delete_distinct:
  "distinct (map fst c) \<Longrightarrow> k \<in> fst ` set c \<Longrightarrow> Suc (length (AList.delete k c)) = length c"
proof (induction c)
  case Nil
  then show ?case by simp
next
  case (Cons a c)
  show ?case
  proof (cases "fst a = k")
    case True
    then have "k \<notin> fst ` set c" using Cons.prems(1) by auto
    then have "AList.delete k c = c" by (rule delete_id)
    then show ?thesis using True by (cases a) simp
  next
    case False
    then have "k \<in> fst ` set c" using Cons.prems(2) by auto
    then show ?thesis using False Cons by (cases a) auto
  qed
qed

lemma length_update_le: "length (AList.update k v c) \<le> Suc (length c)"
  by (induction c) auto

lemma length_cache_result: "length c \<le> 50 \<Longrightarrow> length (cache_result now k res c) \<le> 50"
proof (cases "50 \<le> length c")
  case True
  assume le: "length c \<le> 50"
  from True have "c \<noteq> []" by auto
  from oldest_key_spec[OF this] obtain e where e: "e \<in> set c" "oldest_key c = Some (fst e)"
    by blast
  then have "length (AList.delete (fst e) c) < length c"
    by (intro length_delete_less) auto
  then have "length (AList.update k \<lparr>result = res, timestamp = now\<rparr> (AList.delete (fst e) c)) \<le> 50"
    using le length_update_le[of k "\<lparr>result = res, timestamp = now\<rparr>" "AList.delete (fst e) c"]
    by linarith
  then show ?thesis using True e by (simp add: cache_result_def)
next
  case False
  then show ?thesis
    using length_update_le[of k "\<lparr>result = res, timestamp = now\<rparr>" c]
    by (simp add: cache_result_def)
qed

lemma distinct_cache_result:
  "distinct (map fst c) \<Longrightarrow> distinct (map fst (cache_result now k res c))"
  by (simp add: cache_result_def Let_def distinct_update distinct_delete split: option.splits)

lemma cache_result_lookup:
  "map_of (cache_result now k res c) k = Some \<lparr>result = res, timestamp = now\<rparr>"
  by (simp add: cache_result_def Let_def update_conv')

lemma cache_result_at_capacity:
  assumes "distinct (map fst c)" and "50 \<le> length c"
  shows "\<exists>k0 item0. map_of c k0 = Some item0 \<and>
           (\<forall>e \<in> set c. timestamp item0 \<le> timestamp (snd e)) \<and>
           Suc (length (AList.delete k0 c)) = length c \<and>
           cache_result now k res c =
             AList.update k \<lparr>result = res, timestamp = now\<rparr> (AList.delete k0 c)"
proof -
  from assms(2) have "c \<noteq> []" by auto
  from oldest_key_spec[OF this] obtain e where e: "e \<in> set c" "oldest_key c = Some (fst e)"
    "\<forall>e' \<in> set c. timestamp (snd e) \<le> timestamp (snd e')"
    by blast
  have "map_of c (fst e) = Some (snd e)"
    using assms(1) e(1) by (cases e) simp
  moreover have "Suc (length (AList.delete (fst e) c)) = length c"
    using assms(1) e(1) by (intro length_delete_distinct) auto
  moreover have "cache_result now k res c =
      AList.update k \<lparr>result = res, timestamp = now\<rparr> (AList.delete (fst e) c)"
    using assms(2) e(2) by (simp add: cache_result_def)
  ultimately show ?thesis using e(3) by blast
qed

lemma get_cached_hit_unchanged:
  "get_cached_result now k c = (Some res, c') \<Longrightarrow> c' = c"
  by (auto simp: get_cached_result_def split: option.splits if_splits)

lemma length_get_cached: "length (snd (get_cached_result now k c)) \<le> length c"
  by (auto simp: get_cached_result_def length_delete_le split: option.splits)

lemma distinct_get_cached:
  "distinct (map fst c) \<Longrightarrow> distinct (map fst (snd (get_cached_result now k c)))"
  by (auto simp: get_cached_result_def distinct_delete split: option.splits)

lemma cache_search_cases:
  "inventory_df m = [] \<and> snd (intelligent_search clk q k m) = m \<or>
   (\<exists>x. search_cache (snd (intelligent_search clk q k m)) =
          snd (get_cached_result (time_get clk) (generate_cache_key q k (inventory_df m)) (search_cache m)) \<or>
        search_cache (snd (intelligent_search clk q k m)) =
          cache_result (time_put clk) (generate_cache_key q k (inventory_df m)) x
           (snd (get_cached_result (time_get clk) (generate_cache_key q k (inventory_df m)) (search_cache m))))"
  by (auto simp: intelligent_search_def Let_def split: prod.splits option.splits)

lemma length_cache_search:
  "length (search_cache m) \<le> 50 \<Longrightarrow> length (search_cache (snd (intelligent_search clk q k m))) \<le> 50"
  using cache_search_cases[of m clk q k]
    length_get_cached[of "time_get clk" "generate_cache_key q k (inventory_df m)" "search_cache m"]
  by (auto intro!: length_cache_result)

lemma distinct_cache_search:
  "distinct (map fst (search_cache m)) \<Longrightarrow> distinct (map fst (search_cache (snd (intelligent_search clk q k m))))"
  using cache_search_cases[of m clk q k]
  by (auto intro!: distinct_cache_result distinct_get_cached)

lemma length_run_cache: "length (search_cache (fst (run calls (start file)))) \<le> 50"
proof (rule run_invariant[where P = "\<lambda>w. length (search_cache (fst w)) \<le> 50"])
  show "length (search_cache (fst (start file))) \<le> 50"
    by (simp add: cache_start)
next
  fix c and w :: "InventoryManager \<times> csv_file"
  assume "length (search_cache (fst w)) \<le> 50"
  then show "length (search_cache (fst (do_call c w))) \<le> 50"
    using cache_do_call[of c w] length_cache_search[of "fst w"] by auto
qed

lemma distinct_run_cache: "distinct (map fst (search_cache (fst (run calls (start file)))))"
proof (rule run_invariant[where P = "\<lambda>w. distinct (map fst (search_cache (fst w)))"])
  show "distinct (map fst (search_cache (fst (start file))))"
    by (simp add: cache_start)
next
  fix c and w :: "InventoryManager \<times> csv_file"
  assume "distinct (map fst (search_cache (fst w)))"
  then show "distinct (map fst (search_cache (fst (do_call c w))))"
    using cache_do_call[of c w] distinct_cache_search[of "fst w"] by auto
qed

lemma length_inserts:
  "length c \<le> 50 \<Longrightarrow>
   length (foldl (\<lambda>c (now, k, res). cache_result now k res c) c inserts) \<le> 50"
  by (induction inserts arbitrary: c) (auto simp: length_cache_result)

text \<open>
  Claim C6. The cache never holds more than 50 entries: not after any sequence of
  insertions into the empty cache, and not in any state the manager can reach. An
  insertion into a cache of 50 entries removes exactly one entry, one whose timestamp
  is least among all entries, and then stores the new one. Timestamps are creation
  times: a lookup that hits leaves the cache, timestamps included, as it was, so what
  is evicted does not depend on reads.
\<close>

theorem cache_bounded_oldest_evicted:
  "length (foldl (\<lambda>c (now, k, res). cache_result now k res c) [] inserts) \<le> 50 \<and>
   length (search_cache (fst (run calls (start file)))) \<le> 50 \<and>
   distinct (map fst (search_cache (fst (run calls (start file))))) \<and>
   (distinct (map fst c) \<and> 50 \<le> length c \<longrightarrow>
      (\<exists>k0 item0. map_of c k0 = Some item0 \<and>
         (\<forall>e \<in> set c. timestamp item0 \<le> timestamp (snd e)) \<and>
         Suc (length (AList.delete k0 c)) = length c \<and>
         cache_result now k res c =
           AList.update k \<lparr>result = res, timestamp = now\<rparr> (AList.delete k0 c))) \<and>
   (get_cached_result now' k' c = (Some res', c') \<longrightarrow> c' = c)"
  using length_inserts[of "[]" inserts] length_run_cache[of calls "file"]
    distinct_run_cache[of calls "file"] cache_result_at_capacity[of c now k res]
    get_cached_hit_unchanged[of now' k' c res' c']
  by simp

theorem cache_bounded_oldest_evicted_witness:
  "distinct (map fst full_cache) \<and> length full_cache = 50 \<and>
   (\<exists>k0 item0. map_of full_cache k0 = Some item0 \<and>
      list_all (\<lambda>e. timestamp item0 \<le> timestamp (snd e)) full_cache \<and>
      Suc (length (AList.delete k0 full_cache)) = length full_cache \<and>
      cache_result 500 (''sedan'', 8, 2) [] full_cache =
        AList.update (''sedan'', 8, 2) \<lparr>result = [], timestamp = 500\<rparr>
          (AList.delete k0 full_cache)) \<and>
   get_cached_result 150 (''suv'', 8, 0) full_cache = (Some [], full_cache) \<and>
   map_of (cache_result 500 (''sedan'', 8, 2) [] full_cache) (''suv'', 8, 0) = None \<and>
   length (cache_result 500 (''sedan'', 8, 2) [] full_cache) = 50"
proof -
  have d: "distinct (map fst full_cache)"
    by code_simp
  have l: "length full_cache = 50"
    by code_simp
  have g: "get_cached_result 150 (''suv'', 8, 0) full_cache = (Some [], full_cache)"
    by code_simp
  have m: "map_of (cache_result 500 (''sedan'', 8, 2) [] full_cache) (''suv'', 8, 0) = None"
    by code_simp
  have n: "length (cache_result 500 (''sedan'', 8, 2) [] full_cache) = 50"
    by code_simp
  have "\<exists>k0 item0. map_of full_cache k0 = Some item0 \<and>
      (\<forall>e \<in> set full_cache. timestamp item0 \<le> timestamp (snd e)) \<and>
      Suc (length (AList.delete k0 full_cache)) = length full_cache \<and>
      cache_result 500 (''sedan'', 8, 2) [] full_cache =
        AList.update (''sedan'', 8, 2) \<lparr>result = [], timestamp = 500\<rparr>
          (AList.delete k0 full_cache)"
    using cache_bounded_oldest_evicted[of "[]" "[]" Missing full_cache 500 "(''sedan'', 8, 2)" "[]"
        150 "(''suv'', 8, 0)" "[]" full_cache] d l
    by simp
  then show ?thesis using d l g m n by (simp add: list_all_iff)
qed

subsection \<open>Searching twice\<close>

lemma get_cached_Some:
  "get_cached_result now k c = (Some res, c') \<Longrightarrow>
   c' = c \<and> (\<exists>item. map_of c k = Some item \<and> result item = res \<and>
                 now - timestamp item \<le> cache_ttl)"
  by (auto simp: get_cached_result_def split: option.splits if_splits)

lemma get_cached_hit:
  "map_of c k = Some item \<Longrightarrow> now - timestamp item \<le> cache_ttl \<Longrightarrow>
   get_cached_result now k c = (Some (result item), c)"
  by (simp add: get_cached_result_def)

text \<open>After a search on a catalog that is not empty, the cache holds the returned list
  under the key of the search; it was stored by this call, or it was found there within
  its time to live.\<close>

lemma search_leaves_entry:
  assumes "inventory_df m \<noteq> []" and "intelligent_search clk q k m = (r1, m1)"
  shows "inventory_df m1 = inventory_df m \<and>
         (\<exists>item. map_of (search_cache m1) (generate_cache_key q k (inventory_df m)) = Some item \<and>
            result item = r1 \<and>
            (timestamp item = time_put clk \<or> time_get clk - timestamp item \<le> cache_ttl))"
proof -
  let ?key = "generate_cache_key q k (inventory_df m)"
  obtain x c1 where g: "get_cached_result (time_get clk) ?key (search_cache m) = (x, c1)"
    by (cases "get_cached_result (time_get clk) ?key (search_cache m)")
  show ?thesis
  proof (cases x)
    case (Some res)
    from get_cached_Some[OF g[unfolded Some]] obtain item where
      "c1 = search_cache m" "map_of (search_cache m) ?key = Some item" "result item = res"
      "time_get clk - timestamp item \<le> cache_ttl"
      by blast
    moreover have "r1 = res" "m1 = m\<lparr>search_cache := c1, hits := hits m + 1\<rparr>"
      using assms g Some by (simp_all add: intelligent_search_def)
    ultimately show ?thesis by simp
  next
    case None
    then show ?thesis
      using assms g
      by (auto simp: intelligent_search_def Let_def cache_result_lookup split: if_splits)
  qed
qed

lemma search_hit:
  assumes "inventory_df m \<noteq> []"
    and "map_of (search_cache m) (generate_cache_key q k (inventory_df m)) = Some item"
    and "time_get clk - timestamp item \<le> cache_ttl"
  shows "intelligent_search clk q k m = (result item, m\<lparr>hits := hits m + 1\<rparr>)"
  using assms(1) get_cached_hit[OF assms(2,3)] by (simp add: intelligent_search_def)

text \<open>
  Claim C4, as amended. Let the first search return \<open>r1\<close> and leave the manager \<open>m1\<close>,
  and let the second search follow with nothing in between. On an empty catalog both
  searches return the empty list and the manager, its hit counter included, stays as it
  was. On a catalog that is not empty, if the entry under the key of the search is still
  within its time to live when the second search looks it up, the second search returns
  the same list \<open>r1\<close> and changes nothing but the hit counter, which grows by one: the
  cache, the miss counter and the catalog stay as they were, so nothing was computed or
  stored again. The entry is within its time to live in particular when the clock of the
  second lookup has not moved past that of the first.
\<close>

theorem search_twice:
  assumes "intelligent_search clk1 query max_results m = (r1, m1)"
  shows "(inventory_df m = [] \<longrightarrow>
            r1 = [] \<and> m1 = m \<and> intelligent_search clk2 query max_results m1 = ([], m)) \<and>
         (inventory_df m \<noteq> [] \<and>
          (\<forall>item. map_of (search_cache m1) (generate_cache_key query max_results (inventory_df m)) = Some item
             \<longrightarrow> time_get clk2 - timestamp item \<le> cache_ttl) \<longrightarrow>
            intelligent_search clk2 query max_results m1 = (r1, m1\<lparr>hits := hits m1 + 1\<rparr>)) \<and>
         (inventory_df m \<noteq> [] \<and> time_get clk2 \<le> time_get clk1 \<and> time_get clk1 \<le> time_put clk1 \<longrightarrow>
            intelligent_search clk2 query max_results m1 = (r1, m1\<lparr>hits := hits m1 + 1\<rparr>))"
proof (cases "inventory_df m = []")
  case True
  then show ?thesis using assms by (auto simp: intelligent_search_def)
next
  case False
  let ?key = "generate_cache_key query max_results (inventory_df m)"
  from search_leaves_entry[OF False assms] obtain item where
    df: "inventory_df m1 = inventory_df m" and
    item: "map_of (search_cache m1) ?key = Some item" "result item = r1" and
    ts: "timestamp item = time_put clk1 \<or> time_get clk1 - timestamp item \<le> cache_ttl"
    by blast
  have hit: "intelligent_search clk2 query max_results m1 = (r1, m1\<lparr>hits := hits m1 + 1\<rparr>)"
    if "time_get clk2 - timestamp item \<le> cache_ttl"
    using search_hit[of m1 query max_results item clk2] False df item that by simp
  have "time_get clk2 - timestamp item \<le> cache_ttl"
    if "time_get clk2 \<le> time_get clk1" "time_get clk1 \<le> time_put clk1"
    using ts that by (auto simp: cache_ttl_def)
  then show ?thesis using False hit item by auto
qed

theorem search_twice_witness:
  "intelligent_search example_clock ''suv'' 8 example_manager =
     ([example_suv],
      example_manager\<lparr>search_cache := [((''suv'', 8, 2), \<lparr>result = [example_suv], timestamp = 1001\<rparr>)],
                      misses := 1\<rparr>) \<and>
   intelligent_search (example_clock\<lparr>time_get := 1002, time_put := 1003\<rparr>) ''suv'' 8
     (example_manager\<lparr>search_cache := [((''suv'', 8, 2), \<lparr>result = [example_suv], timestamp = 1001\<rparr>)],
                      misses := 1\<rparr>) =
     ([example_suv],
      example_manager\<lparr>search_cache := [((''suv'', 8, 2), \<lparr>result = [example_suv], timestamp = 1001\<rparr>)],
                      misses := 1, hits := 1\<rparr>) \<and>
   intelligent_search example_clock ''suv'' 8 new_manager = ([], new_manager)"
proof -
  let ?m1 = "example_manager\<lparr>search_cache := [((''suv'', 8, 2), \<lparr>result = [example_suv], timestamp = 1001\<rparr>)],
                      misses := 1\<rparr>"
  have s1: "intelligent_search example_clock ''suv'' 8 example_manager = ([example_suv], ?m1)"
    by code_simp
  have ne: "inventory_df example_manager \<noteq> []"
    by code_simp
  have fresh: "\<forall>item. map_of (search_cache ?m1) (generate_cache_key ''suv'' 8 (inventory_df example_manager)) = Some item
             \<longrightarrow> time_get (example_clock\<lparr>time_get := 1002, time_put := 1003\<rparr>) - timestamp item \<le> cache_ttl"
  proof -
    have "generate_cache_key ''suv'' 8 (inventory_df example_manager) = (''suv'', 8, 2)"
      by code_simp
    then show ?thesis by (simp add: cache_ttl_def)
  qed
  have h: "hits ?m1 = 0"
    by code_simp
  have s2: "intelligent_search (example_clock\<lparr>time_get := 1002, time_put := 1003\<rparr>) ''suv'' 8 ?m1 =
      ([example_suv], ?m1\<lparr>hits := hits ?m1 + 1\<rparr>)"
    using search_twice[OF s1, of "example_clock\<lparr>time_get := 1002, time_put := 1003\<rparr>"] ne fresh
    by blast
  have e: "inventory_df new_manager = []"
    by (simp add: new_manager_def)
  have s3: "intelligent_search example_clock ''suv'' 8 new_manager = ([], new_manager)"
    by (simp add: intelligent_search_def e)
  show ?thesis using s1 s2[unfolded h] s3 by simp
qed

text \<open>The claim as it is written fails on the empty catalog: the second search is
  not answered from the cache and the hit counter does not move.\<close>

theorem search_twice_counterexample:
  "fst (intelligent_search example_clock ''suv'' 8 new_manager) = [] \<and>
   hits (snd (intelligent_search example_clock ''suv'' 8
               (snd (intelligent_search example_clock ''suv'' 8 new_manager)))) \<noteq>
   hits (snd (intelligent_search example_clock ''suv'' 8 new_manager)) + 1 \<and>
   search_cache (snd (intelligent_search example_clock ''suv'' 8
               (snd (intelligent_search example_clock ''suv'' 8 new_manager)))) = []"
  by code_simp

section \<open>The query parser\<close>

lemma parse_family_suv_query:
  "parse_search_query ''SUV para familia hasta 30000'' =
     \<lparr>budget_max = Some 30000, body_style = Some (codepoints ''SUV''), color = None,
      family_friendly = True, economical = False, luxury = False\<rparr>"
  by code_simp

text \<open>
  Claim C1 (scenario A). The catalog holds one vehicle: \<open>Available\<close>, body style SUV
  (in any letter case), price 28000, model year the current year, at most 100000 on the
  odometer, and no \<open>safety\<close> in its features (compared in lower case, as the scorer
  does). Then the query \<open>SUV para familia hasta 30000\<close> gives the criteria with budget
  30000, body style \<open>SUV\<close> and the family flag and nothing else; the filter keeps the
  vehicle; its score is 17; and a search that asks for at least one result and finds no
  live cache entry under its key, as on a newly built manager, returns exactly that
  vehicle.
\<close>

theorem scenario_A:
  assumes "inventory_df m = [v]"
    and "status v = ''Available''"
    and "upper (body_styles v) = codepoints ''SUV''"
    and "price v = 28000"
    and "year v = current_year clk"
    and "mileage v \<le> 100000"
    and "\<not> str_contains ''safety'' (lower (str_cell (features v)))"
    and "0 < max_results"
    and "fst (get_cached_result (time_get clk)
           (generate_cache_key ''SUV para familia hasta 30000'' max_results [v]) (search_cache m)) = None"
  shows "parse_search_query ''SUV para familia hasta 30000'' =
           \<lparr>budget_max = Some 30000, body_style = Some (codepoints ''SUV''), color = None,
            family_friendly = True, economical = False, luxury = False\<rparr> \<and>
         apply_filters [v] (parse_search_query ''SUV para familia hasta 30000'') = [v] \<and>
         calculate_relevance (current_year clk) v
           (parse_search_query ''SUV para familia hasta 30000'') = 17 \<and>
         fst (intelligent_search clk ''SUV para familia hasta 30000'' max_results m) = [v]"
proof -
  let ?q = "''SUV para familia hasta 30000''"
  let ?c = "\<lparr>budget_max = Some 30000, body_style = Some (codepoints ''SUV''), color = None,
            family_friendly = True, economical = False, luxury = False\<rparr>"
  have p: "parse_search_query ?q = ?c"
    by (rule parse_family_suv_query)
  have f: "apply_filters [v] ?c = [v]"
    using assms(2,3,4) by (simp add: apply_filters_def)
  have s: "calculate_relevance (current_year clk) v ?c = 17"
    using assms(2,3,5,6,7) by (simp add: calculate_relevance_def)
  obtain c1 where g: "get_cached_result (time_get clk)
      (generate_cache_key ?q max_results [v]) (search_cache m) = (None, c1)"
    using assms(9)
    by (cases "get_cached_result (time_get clk) (generate_cache_key ?q max_results [v]) (search_cache m)")
      auto
  have "fst (intelligent_search clk ?q max_results m) = [v]"
    using assms(1) g assms(8)
    by (simp add: intelligent_search_def Let_def p f nlargest_singleton)
  then show ?thesis using p f s by simp
qed

theorem scenario_A_witness:
  "parse_search_query ''SUV para familia hasta 30000'' =
     \<lparr>budget_max = Some 30000, body_style = Some (codepoints ''SUV''), color = None,
      family_friendly = True, economical = False, luxury = False\<rparr> \<and>
   apply_filters [example_suv] (parse_search_query ''SUV para familia hasta 30000'') = [example_suv] \<and>
   calculate_relevance 2026 example_suv (parse_search_query ''SUV para familia hasta 30000'') = 17 \<and>
   fst (intelligent_search example_clock ''SUV para familia hasta 30000'' 8
          (init_manager (Table True [example_suv]))) = [example_suv]"
proof -
  have h1: "inventory_df (init_manager (Table True [example_suv])) = [example_suv]"
    by code_simp
  have h2: "status example_suv = ''Available''"
    by code_simp
  have h3: "upper (body_styles example_suv) = codepoints ''SUV''"
    by code_simp
  have h4: "price example_suv = 28000"
    by code_simp
  have h5: "year example_suv = current_year example_clock"
    by code_simp
  have h6: "mileage example_suv \<le> 100000"
    by code_simp
  have h7: "\<not> str_contains ''safety'' (lower (str_cell (features example_suv)))"
    by code_simp
  have h8: "(0::int) < 8"
    by simp
  have h9: "fst (get_cached_result (time_get example_clock)
           (generate_cache_key ''SUV para familia hasta 30000'' 8 [example_suv])
           (search_cache (init_manager (Table True [example_suv])))) = None"
    by code_simp
  have y: "current_year example_clock = 2026"
    by code_simp
  show ?thesis
    using scenario_A[OF h1 h2 h3 h4 h5 h6 h7 h8 h9] unfolding y by blast
qed

lemma first_budget_patterns:
  assumes "re_search ''bajo '' ql = None" and "re_search ''menos de '' ql = None"
    and "re_search ''hasta '' ql = Some ds"
  shows "first_budget budget_patterns ql = Some (py_int ds)"
  using assms by (simp add: budget_patterns_def)

lemma py_int_40000: "py_int ''40000'' = 40000"
  by code_simp

text \<open>
  Claim C3, as amended. The budget patterns are tried in the order \<open>bajo\<close>,
  \<open>menos de\<close>, \<open>hasta\<close>, \<open>maximo\<close> (written with an acute accent on the a),
  \<open>presupuesto\<close>, and only the first that matches is
  used. So when the lower-cased query has no match of \<open>bajo N\<close> and none of \<open>menos de N\<close>
  and its leftmost match of \<open>hasta N\<close> reads 40000, the budget is 40000, whatever
  \<open>maximo\<close> or \<open>presupuesto\<close> phrases the query holds and wherever they stand.
\<close>

theorem budget_first_pattern_wins:
  assumes "re_search ''bajo '' (lower query) = None"
    and "re_search ''menos de '' (lower query) = None"
    and "re_search ''hasta '' (lower query) = Some ''40000''"
  shows "budget_max (parse_search_query query) = Some 40000"
  using first_budget_patterns[OF assms] by (simp add: parse_search_query_def Let_def py_int_40000)

theorem budget_first_pattern_wins_witness:
  "str_contains ''hasta 40000'' (''hasta 40000 m'' @ [CHR 0xE1] @ ''ximo 50000'') \<and>
   str_contains (''m'' @ [CHR 0xE1] @ ''ximo 50000'') (''hasta 40000 m'' @ [CHR 0xE1] @ ''ximo 50000'') \<and>
   budget_max (parse_search_query (''hasta 40000 m'' @ [CHR 0xE1] @ ''ximo 50000'')) = Some 40000 \<and>
   str_contains ''hasta 40000'' (''M'' @ [CHR 0xC1] @ ''ximo 50000, hasta 40000'') \<and>
   budget_max (parse_search_query (''M'' @ [CHR 0xC1] @ ''ximo 50000, hasta 40000'')) = Some 40000"
proof -
  let ?q1 = "''hasta 40000 m'' @ [CHR 0xE1] @ ''ximo 50000''"
  let ?q2 = "''M'' @ [CHR 0xC1] @ ''ximo 50000, hasta 40000''"
  have a1: "re_search ''bajo '' (lower ?q1) = None"
    by code_simp
  have b1: "re_search ''menos de '' (lower ?q1) = None"
    by code_simp
  have c1: "re_search ''hasta '' (lower ?q1) = Some ''40000''"
    by code_simp
  have a2: "re_search ''bajo '' (lower ?q2) = None"
    by code_simp
  have b2: "re_search ''menos de '' (lower ?q2) = None"
    by code_simp
  have c2: "re_search ''hasta '' (lower ?q2) = Some ''40000''"
    by code_simp
  have s1: "str_contains ''hasta 40000'' ?q1"
    by code_simp
  have s2: "str_contains (''m'' @ [CHR 0xE1] @ ''ximo 50000'') ?q1"
    by code_simp
  have s3: "str_contains ''hasta 40000'' ?q2"
    by code_simp
  show ?thesis
    using budget_first_pattern_wins[OF a1 b1 c1] budget_first_pattern_wins[OF a2 b2 c2] s1 s2 s3
    by blast
qed

text \<open>The claim as it is written fails: a query can hold both phrases and a phrase of
  an earlier pattern, or a longer number after \<open>hasta\<close>.\<close>

theorem budget_first_pattern_wins_counterexample:
  "str_contains ''hasta 40000'' (''bajo 100 hasta 40000 m'' @ [CHR 0xE1] @ ''ximo 50000'') \<and>
   str_contains (''m'' @ [CHR 0xE1] @ ''ximo 50000'')
     (''bajo 100 hasta 40000 m'' @ [CHR 0xE1] @ ''ximo 50000'') \<and>
   budget_max (parse_search_query (''bajo 100 hasta 40000 m'' @ [CHR 0xE1] @ ''ximo 50000'')) =
     Some 100 \<and>
   budget_max (parse_search_query (''bajo 100 hasta 40000 m'' @ [CHR 0xE1] @ ''ximo 50000'')) \<noteq>
     Some 40000"
  by code_simp

end
